theory Spec2Isabelle
  imports Main
begin

section \<open>The graph reader: text to graph\<close>

text \<open>
  A shallow embedding of \<^verbatim>\<open>reader.py\<close>: \<^verbatim>\<open>read_data_from_url\<close> and
  \<^verbatim>\<open>convert_data_into_graph\<close>, with the parts of the Python library they call
  (\<^verbatim>\<open>str.split\<close>, \<^verbatim>\<open>int\<close>, tuple unpacking, \<^verbatim>\<open>networkx.Graph.add_edge\<close>, the
  module's logger, \<^verbatim>\<open>requests.get\<close>).

  A text is a \<^typ>\<open>string\<close>; a \<^typ>\<open>char\<close> stands for the code point of the same
  number, so the model covers texts over the code points 0 to 255.
\<close>

subsection \<open>Exceptions\<close>

text \<open>
  The only exception the parser can raise on a \<^verbatim>\<open>str\<close>: a tuple unpacking with the
  wrong number of values and \<^verbatim>\<open>int\<close> on a token that is no integer literal both raise
  \<^verbatim>\<open>ValueError\<close>. \<^verbatim>\<open>RequestError\<close> stands for whatever \<^verbatim>\<open>requests.get\<close> raises.
\<close>

datatype py_error = ValueError | RequestError

subsection \<open>\<^verbatim>\<open>str.split(sep)\<close> for a separator of one character\<close>

text \<open>
  Every occurrence of the separator cuts; empty pieces are kept; the result has one
  piece more than the text has separators, so it is never empty.
\<close>

fun split_on :: "char \<Rightarrow> string \<Rightarrow> string list" where
  "split_on sep [] = [[]]"
| "split_on sep (c # cs) =
     (if c = sep then [] # split_on sep cs
      else (case split_on sep cs of
              [] \<Rightarrow> [[c]]
            | piece # pieces \<Rightarrow> (c # piece) # pieces))"

text \<open>\<^verbatim>\<open>a, b, c = xs\<close>: exactly three values, otherwise \<^verbatim>\<open>ValueError\<close>.\<close>

fun unpack3 :: "'a list \<Rightarrow> py_error + ('a \<times> 'a \<times> 'a)" where
  "unpack3 [a, b, c] = Inr (a, b, c)"
| "unpack3 _ = Inl ValueError"

subsection \<open>\<^verbatim>\<open>int(s)\<close> on a string, base 10\<close>

text \<open>
  CPython's \<^verbatim>\<open>int\<close> on a \<^verbatim>\<open>str\<close>: white space around the literal is skipped, one sign
  may lead, then come decimal digits, where single underscores may stand between two
  digits. Anything else raises \<^verbatim>\<open>ValueError\<close> (here \<^const>\<open>None\<close>), and so does a
  literal of more than \<^verbatim>\<open>sys.get_int_max_str_digits()\<close> digits (4300 unless the
  interpreter is configured otherwise).
\<close>

definition py_isspace :: "char \<Rightarrow> bool" where
  "py_isspace c \<longleftrightarrow>
     c \<in> {CHR 0x09, CHR 0x0A, CHR 0x0B, CHR 0x0C, CHR 0x0D, CHR 0x20, CHR 0x85, CHR 0xA0}"

definition is_digit :: "char \<Rightarrow> bool" where
  "is_digit c \<longleftrightarrow> c \<in> set ''0123456789''"

definition digit_value :: "char \<Rightarrow> nat" where
  "digit_value c = of_char c - 48"

definition digits_value :: "string \<Rightarrow> nat" where
  "digits_value ds = foldl (\<lambda>acc d. 10 * acc + digit_value d) 0 ds"

definition int_max_str_digits :: nat where
  "int_max_str_digits = 4300"

fun underscores_ok :: "string \<Rightarrow> bool" where
  "underscores_ok [] = False"
| "underscores_ok [c] = is_digit c"
| "underscores_ok (c # d # cs) =
     (if is_digit c then underscores_ok (d # cs)
      else is_digit d \<and> underscores_ok (d # cs))"

definition literal_char :: "char \<Rightarrow> bool" where
  "literal_char c \<longleftrightarrow> is_digit c \<or> c = CHR ''_''"

definition py_int :: "string \<Rightarrow> int option" where
  "py_int s =
     (let s1 = dropWhile py_isspace s;
          neg = (s1 \<noteq> [] \<and> hd s1 = CHR ''-'');
          s2 = (if s1 \<noteq> [] \<and> (hd s1 = CHR ''+'' \<or> hd s1 = CHR ''-'') then tl s1 else s1);
          body = takeWhile literal_char s2;
          rest = dropWhile literal_char s2;
          ds = filter is_digit body
      in if body = [] \<or> \<not> is_digit (hd body) \<or> \<not> underscores_ok body then None
         else if 0 < int_max_str_digits \<and> int_max_str_digits < length ds then None
         else if \<not> list_all py_isspace rest then None
         else Some (if neg then - int (digits_value ds) else int (digits_value ds)))"

subsection \<open>The graph of \<^verbatim>\<open>networkx\<close>\<close>

text \<open>
  \<^verbatim>\<open>nx.Graph\<close> keeps a dictionary of nodes and, for every node, a dictionary of its
  neighbours. \<^term>\<open>node g\<close> is the key set of the first, \<^term>\<open>adj g u\<close> the key set
  of the neighbour dictionary of \<open>u\<close> (empty for a \<open>u\<close> that is no node). Node and
  edge attributes are never set by the reader and are left out.
\<close>

record graph =
  node :: "int set"
  adj :: "int \<Rightarrow> int set"

definition empty_graph :: graph where
  "empty_graph = \<lparr>node = {}, adj = (\<lambda>_. {})\<rparr>"

text \<open>
  \<^verbatim>\<open>G.add_edge(u, v)\<close>: both end points become nodes if they are not yet, then
  \<^verbatim>\<open>_adj[u][v]\<close> and \<^verbatim>\<open>_adj[v][u]\<close> are set, in this order.
\<close>

definition add_edge :: "graph \<Rightarrow> int \<Rightarrow> int \<Rightarrow> graph" where
  "add_edge g u v =
     (let a1 = (adj g)(u := insert v (adj g u));
          a2 = a1(v := insert u (a1 v))
      in \<lparr>node = insert v (insert u (node g)), adj = a2\<rparr>)"

text \<open>
  \<^verbatim>\<open>G.edges\<close> reports every edge once, whatever its direction of insertion: an edge is
  the set of its one or two end points.
\<close>

definition edges :: "graph \<Rightarrow> int set set" where
  "edges g = (\<Union>u \<in> node g. (\<lambda>v. {u, v}) ` adj g u)"

definition number_of_nodes :: "graph \<Rightarrow> nat" where
  "number_of_nodes g = card (node g)"

text \<open>
  \<^verbatim>\<open>G.number_of_edges()\<close> is half the sum of the degrees, where a self-loop counts
  twice in the degree of its node.
\<close>

definition degree :: "graph \<Rightarrow> int \<Rightarrow> nat" where
  "degree g u = card (adj g u) + (if u \<in> adj g u then 1 else 0)"

definition number_of_edges :: "graph \<Rightarrow> nat" where
  "number_of_edges g = (\<Sum>u \<in> node g. degree g u) div 2"

subsection \<open>The module's logger\<close>

text \<open>
  The state of the module-level \<^verbatim>\<open>logger\<close> is the sequence of the calls made on it,
  oldest first: the level of the call and the formatted message.
\<close>

datatype level = DEBUG | INFO

type_synonym logger = "(level \<times> string) list"

definition info :: "string \<Rightarrow> logger \<Rightarrow> logger" where
  "info msg L = L @ [(INFO, msg)]"

definition debug :: "string \<Rightarrow> logger \<Rightarrow> logger" where
  "debug msg L = L @ [(DEBUG, msg)]"

text \<open>\<^verbatim>\<open>str(n)\<close> for the counts that the f-strings format.\<close>

fun str_nat :: "nat \<Rightarrow> string" where
  "str_nat n =
     (if n < 10 then [''0123456789'' ! n]
      else str_nat (n div 10) @ [''0123456789'' ! (n mod 10)])"

declare str_nat.simps [simp del]

subsection \<open>\<^verbatim>\<open>read_data_from_url\<close>\<close>

text \<open>
  \<^verbatim>\<open>requests.get\<close> is a parameter: it takes the state of the world and the URL and
  gives the new state and either an exception or a response. The function falls off
  its end for a status other than 200, which returns \<^verbatim>\<open>None\<close>.
\<close>

record response =
  status_code :: int
  response_text :: string

definition read_data_from_url ::
  "('w \<Rightarrow> string \<Rightarrow> 'w \<times> (py_error + response)) \<Rightarrow> 'w \<Rightarrow> string
    \<Rightarrow> 'w \<times> (py_error + string option)" where
  "read_data_from_url requests_get w url =
     (case requests_get w url of
        (w', Inl e) \<Rightarrow> (w', Inl e)
      | (w', Inr resp) \<Rightarrow>
          (if status_code resp = 200 then (w', Inr (Some (response_text resp)))
           else (w', Inr None)))"

subsection \<open>\<^verbatim>\<open>convert_data_into_graph\<close>\<close>

text \<open>
  The body of the \<^verbatim>\<open>for\<close> loop, for the line \<open>line\<close> at index \<open>i\<close>. The header's
  tokens are only unpacked and logged. For an edge line \<^verbatim>\<open>int(u)\<close> is evaluated before
  \<^verbatim>\<open>int(v)\<close>, and the third token is only formatted into the debug message.
\<close>

definition body :: "logger \<times> graph \<Rightarrow> nat \<times> string \<Rightarrow> logger \<times> (py_error + graph)" where
  "body s x =
     (case s of (L, g) \<Rightarrow> case x of (i, line) \<Rightarrow>
        if i = 0 then
          (case unpack3 (split_on CHR '' '' line) of
             Inl e \<Rightarrow> (L, Inl e)
           | Inr (num_nodes, num_edges, _) \<Rightarrow>
               (info (''Expect number of nodes '' @ num_nodes @ '' and edges '' @ num_edges) L,
                Inr g))
        else
          (case unpack3 (split_on CHR '' '' line) of
             Inl e \<Rightarrow> (L, Inl e)
           | Inr (u, v, w) \<Rightarrow>
               (case py_int u of
                  None \<Rightarrow> (L, Inl ValueError)
                | Some a \<Rightarrow>
                    (case py_int v of
                       None \<Rightarrow> (L, Inl ValueError)
                     | Some b \<Rightarrow>
                         (debug (''Added an edge from u: '' @ u @ '' to  v: '' @ v
                                 @ '' with weight '' @ w) L,
                          Inr (add_edge g (a - 1) (b - 1)))))))"

text \<open>The \<^verbatim>\<open>for\<close> loop: an exception ends it and keeps the log written so far.\<close>

fun loop :: "logger \<times> graph \<Rightarrow> (nat \<times> string) list \<Rightarrow> logger \<times> (py_error + graph)" where
  "loop (L, g) [] = (L, Inr g)"
| "loop (L, g) (x # xs) =
     (case body (L, g) x of
        (L', Inl e) \<Rightarrow> (L', Inl e)
      | (L', Inr g') \<Rightarrow> loop (L', g') xs)"

definition convert_data_into_graph :: "logger \<Rightarrow> string \<Rightarrow> logger \<times> (py_error + graph)" where
  "convert_data_into_graph L data =
     (let record_list = split_on CHR ''\<newline>'' data
      in case loop (L, empty_graph) (enumerate 0 (butlast record_list)) of
           (L', Inl e) \<Rightarrow> (L', Inl e)
         | (L', Inr g) \<Rightarrow>
             (info (''Total number of edges: '' @ str_nat (number_of_edges g))
                (info (''Total number of nodes: '' @ str_nat (number_of_nodes g)) L'),
              Inr g))"

subsection \<open>The edges of a list, added one after the other\<close>

text \<open>What the loop has done to the graph after the edge lines it accepted.\<close>

definition add_edges :: "graph \<Rightarrow> (int \<times> int) list \<Rightarrow> graph" where
  "add_edges g ps = foldl (\<lambda>g' p. add_edge g' (fst p) (snd p)) g ps"

subsection \<open>The notions of the specification\<close>

text \<open>
  The segments that the parser processes are all the segments of the text but the
  last; the first of them is the header line, the others are the edge lines.
\<close>

definition processed_lines :: "string \<Rightarrow> string list" where
  "processed_lines data = butlast (split_on CHR ''\<newline>'' data)"

definition edge_lines :: "string \<Rightarrow> string list" where
  "edge_lines data = drop 1 (processed_lines data)"

text \<open>
  A malformed line: its split on single spaces does not give exactly three tokens, or
  it is an edge line (its index is not 0) and its first or second token is no integer.
\<close>

fun malformed_tokens :: "nat \<Rightarrow> string list \<Rightarrow> bool" where
  "malformed_tokens i [u, v, w] = (i \<noteq> 0 \<and> (py_int u = None \<or> py_int v = None))"
| "malformed_tokens i _ = True"

definition malformed :: "nat \<Rightarrow> string \<Rightarrow> bool" where
  "malformed i line = malformed_tokens i (split_on CHR '' '' line)"

definition well_formed :: "string \<Rightarrow> bool" where
  "well_formed data =
     list_all (\<lambda>x. \<not> malformed (fst x) (snd x)) (enumerate 0 (processed_lines data))"

text \<open>
  The end points that an edge line names, 0-indexed: the values of its first two
  tokens, each less 1.
\<close>

fun edge_of_tokens :: "string list \<Rightarrow> (int \<times> int) option" where
  "edge_of_tokens [u, v, w] =
     (case py_int u of
        None \<Rightarrow> None
      | Some a \<Rightarrow> (case py_int v of None \<Rightarrow> None | Some b \<Rightarrow> Some (a - 1, b - 1)))"
| "edge_of_tokens _ = None"

definition edge_of_line :: "string \<Rightarrow> (int \<times> int) option" where
  "edge_of_line line = edge_of_tokens (split_on CHR '' '' line)"

definition edge_pairs :: "string \<Rightarrow> (int \<times> int) list" where
  "edge_pairs data = List.map_filter edge_of_line (edge_lines data)"

text \<open>The undirected edge between two end points: a self-loop has one element.\<close>

definition undirected :: "int \<times> int \<Rightarrow> int set" where
  "undirected p = {fst p, snd p}"

section \<open>Properties of the library functions and of the loop\<close>

subsection \<open>Splitting\<close>

lemma split_on_not_Nil [simp]: "split_on c s \<noteq> []"
  by (induction s) (auto split: list.splits)

lemma split_on_append: "split_on c (xs @ c # ys) = split_on c xs @ split_on c ys"
  by (induction xs) (auto split: list.splits)

lemma split_on_absent: "c \<notin> set s \<Longrightarrow> split_on c s = [s]"
  by (induction s) (auto split: list.splits)

lemma length_split_on: "length (split_on c s) = Suc (count_list s c)"
  by (induction s) (auto split: list.splits)

subsection \<open>One iteration, and the loop\<close>

lemma body_result:
  "snd (body (L, g) (i, line)) =
     (if malformed i line then Inl ValueError
      else if i = 0 then Inr g
      else (case edge_of_line line of None \<Rightarrow> Inr g | Some p \<Rightarrow> Inr (add_edge g (fst p) (snd p))))"
  by (cases "split_on CHR '' '' line" rule: unpack3.cases)
     (auto simp: body_def malformed_def edge_of_line_def split: option.splits)

lemma malformed_edge: "i \<noteq> 0 \<Longrightarrow> malformed i line \<longleftrightarrow> edge_of_line line = None"
  by (cases "split_on CHR '' '' line" rule: unpack3.cases)
     (auto simp: malformed_def edge_of_line_def split: option.splits)

lemma body_log:
  "snd (body (L, g) x) = Inr g' \<Longrightarrow> length (fst (body (L, g) x)) = Suc (length L)"
  by (cases x, cases "split_on CHR '' '' (snd x)" rule: unpack3.cases)
     (auto simp: body_def info_def debug_def split: option.splits if_splits)


lemma body_cases:
  obtains (raise) L' where "body (L, g) x = (L', Inl ValueError)" "malformed (fst x) (snd x)"
  | (header) L' where "body (L, g) x = (L', Inr g)" "\<not> malformed (fst x) (snd x)" "fst x = 0"
  | (edge) L' p where "body (L, g) x = (L', Inr (add_edge g (fst p) (snd p)))"
      "\<not> malformed (fst x) (snd x)" "fst x \<noteq> 0" "edge_of_line (snd x) = Some p"
proof -
  obtain i line where x: "x = (i, line)" by (cases x)
  obtain L' r where b: "body (L, g) x = (L', r)" by (cases "body (L, g) x")
  have r: "r = snd (body (L, g) (i, line))" using b x by simp
  show thesis
  proof (cases "malformed i line")
    case True
    then show thesis using raise [of L'] b r x by (simp add: body_result)
  next
    case False
    show thesis
    proof (cases "i = 0")
      case True
      then show thesis using header [of L'] False b r x by (simp add: body_result)
    next
      case nz: False
      then obtain p where "edge_of_line line = Some p"
        using False malformed_edge [of i line] by auto
      then show thesis using edge [of L' p] False nz b r x by (simp add: body_result)
    qed
  qed
qed

lemma loop_log_free: "snd (loop (L, g) xs) = snd (loop (L', g) xs)"
proof (induction xs arbitrary: L L' g)
  case Nil
  show ?case by simp
next
  case (Cons x xs)
  obtain i line where x: "x = (i, line)" by (cases x)
  obtain L1 r1 where b1: "body (L, g) x = (L1, r1)" by (cases "body (L, g) x")
  obtain L2 r2 where b2: "body (L', g) x = (L2, r2)" by (cases "body (L', g) x")
  have "r1 = r2" using b1 b2 body_result [of L g i line] body_result [of L' g i line] x by simp
  then show ?case using b1 b2 Cons.IH by (cases r1) auto
qed

lemma loop_append:
  "loop (L, g) (xs @ ys) =
     (case loop (L, g) xs of (L', Inl e) \<Rightarrow> (L', Inl e) | (L', Inr g') \<Rightarrow> loop (L', g') ys)"
proof (induction xs arbitrary: L g)
  case Nil
  show ?case by simp
next
  case (Cons x xs)
  show ?case
  proof (cases "body (L, g) x")
    case (Pair L1 r1)
    then show ?thesis using Cons.IH by (cases r1) auto
  qed
qed

lemma loop_malformed:
  "x \<in> set xs \<Longrightarrow> malformed (fst x) (snd x) \<Longrightarrow> snd (loop (L, g) xs) = Inl ValueError"
proof (induction xs arbitrary: L g)
  case Nil
  then show ?case by simp
next
  case (Cons y ys)
  show ?case
  proof (cases rule: body_cases [of L g y])
    case (raise L')
    then show ?thesis by simp
  next
    case (header L')
    then have "x \<in> set ys" using Cons.prems by auto
    then show ?thesis using header Cons.IH Cons.prems by simp
  next
    case (edge L' p)
    then have "x \<in> set ys" using Cons.prems by auto
    then show ?thesis using edge Cons.IH Cons.prems by simp
  qed
qed

lemma loop_edges:
  "\<forall>x \<in> set xs. fst x \<noteq> 0 \<and> \<not> malformed (fst x) (snd x) \<Longrightarrow>
   snd (loop (L, g) xs) = Inr (add_edges g (List.map_filter edge_of_line (map snd xs)))"
proof (induction xs arbitrary: L g)
  case Nil
  show ?case by (simp add: add_edges_def List.map_filter_simps)
next
  case (Cons y ys)
  show ?case
  proof (cases rule: body_cases [of L g y])
    case (raise L')
    then show ?thesis using Cons.prems by simp
  next
    case (header L')
    then show ?thesis using Cons.prems by simp
  next
    case (edge L' p)
    have "snd (loop (L', add_edge g (fst p) (snd p)) ys) =
      Inr (add_edges (add_edge g (fst p) (snd p)) (List.map_filter edge_of_line (map snd ys)))"
      using Cons.IH Cons.prems by simp
    then show ?thesis using edge by (simp add: add_edges_def List.map_filter_simps)
  qed
qed

lemma loop_log:
  "snd (loop (L, g) xs) = Inr g' \<Longrightarrow> length (fst (loop (L, g) xs)) = length L + length xs"
proof (induction xs arbitrary: L g)
  case Nil
  show ?case by simp
next
  case (Cons y ys)
  show ?case
  proof (cases "body (L, g) y")
    case (Pair L1 r1)
    show ?thesis
    proof (cases r1)
      case (Inl e)
      then show ?thesis using Pair Cons.prems by simp
    next
      case (Inr g1)
      have "length L1 = Suc (length L)" using body_log [of L g y g1] Pair Inr by simp
      then show ?thesis using Pair Inr Cons.IH [of L1 g1] Cons.prems by simp
    qed
  qed
qed


subsection \<open>Nodes and edges after \<^const>\<open>add_edge\<close>\<close>

text \<open>
  A graph built from the empty graph by \<^const>\<open>add_edge\<close> keeps a neighbour dictionary
  for its nodes only; the edge set of the graph is read from the nodes' dictionaries.
\<close>

lemma node_add_edge: "node (add_edge g u v) = insert v (insert u (node g))"
  by (simp add: add_edge_def Let_def)

lemma adj_add_edge:
  "adj (add_edge g u v) w =
     (if w = v then insert u (if v = u then insert v (adj g u) else adj g v)
      else if w = u then insert v (adj g u) else adj g w)"
  by (simp add: add_edge_def Let_def)

lemma in_edges: "e \<in> edges g \<longleftrightarrow> (\<exists>u \<in> node g. \<exists>v \<in> adj g u. e = {u, v})"
  by (auto simp: edges_def)

lemma edges_add_edge:
  assumes "\<forall>w. w \<notin> node g \<longrightarrow> adj g w = {}"
  shows "edges (add_edge g u v) = insert {u, v} (edges g)"
proof (rule set_eqI)
  fix e
  show "e \<in> edges (add_edge g u v) \<longleftrightarrow> e \<in> insert {u, v} (edges g)"
  proof
    assume "e \<in> edges (add_edge g u v)"
    then obtain a b where ab: "a \<in> node (add_edge g u v)" "b \<in> adj (add_edge g u v) a" "e = {a, b}"
      by (auto simp: in_edges)
    show "e \<in> insert {u, v} (edges g)"
    proof (cases "e = {u, v}")
      case True
      then show ?thesis by simp
    next
      case False
      then have "b \<in> adj g a"
        using ab(2,3) by (auto simp: adj_add_edge doubleton_eq_iff split: if_splits)
      moreover from this have "a \<in> node g" using assms by auto
      ultimately show ?thesis using ab(3) by (auto simp: in_edges)
    qed
  next
    assume "e \<in> insert {u, v} (edges g)"
    then consider "e = {u, v}" | "e \<in> edges g" by auto
    then show "e \<in> edges (add_edge g u v)"
    proof cases
      case 1
      have "u \<in> node (add_edge g u v)" by (simp add: node_add_edge)
      moreover have "v \<in> adj (add_edge g u v) u" by (simp add: adj_add_edge)
      ultimately show ?thesis using 1 unfolding in_edges by blast
    next
      case 2
      then obtain a b where ab: "a \<in> node g" "b \<in> adj g a" "e = {a, b}"
        by (auto simp: in_edges)
      have "a \<in> node (add_edge g u v)" using ab(1) by (simp add: node_add_edge)
      moreover have "b \<in> adj (add_edge g u v) a" using ab(2) by (auto simp: adj_add_edge)
      ultimately show ?thesis using ab(3) unfolding in_edges by blast
    qed
  qed
qed

lemma closed_add_edge:
  "\<forall>w. w \<notin> node g \<longrightarrow> adj g w = {} \<Longrightarrow>
   \<forall>w. w \<notin> node (add_edge g u v) \<longrightarrow> adj (add_edge g u v) w = {}"
  by (simp add: node_add_edge adj_add_edge)

lemma node_add_edges: "node (add_edges g ps) = node g \<union> (\<Union>p \<in> set ps. undirected p)"
  unfolding add_edges_def
  by (induction ps arbitrary: g) (auto simp: node_add_edge undirected_def)

lemma closed_add_edges:
  "\<forall>w. w \<notin> node g \<longrightarrow> adj g w = {} \<Longrightarrow>
   \<forall>w. w \<notin> node (add_edges g ps) \<longrightarrow> adj (add_edges g ps) w = {}"
  unfolding add_edges_def
proof (induction ps arbitrary: g)
  case Nil
  then show ?case by simp
next
  case (Cons p ps)
  show ?case using Cons.IH [OF closed_add_edge [OF Cons.prems]] by simp
qed

lemma edges_add_edges:
  "\<forall>w. w \<notin> node g \<longrightarrow> adj g w = {} \<Longrightarrow>
   edges (add_edges g ps) = edges g \<union> undirected ` set ps"
  unfolding add_edges_def
proof (induction ps arbitrary: g)
  case Nil
  then show ?case by simp
next
  case (Cons p ps)
  have "edges (foldl (\<lambda>g' p. add_edge g' (fst p) (snd p)) (add_edge g (fst p) (snd p)) ps) =
    edges (add_edge g (fst p) (snd p)) \<union> undirected ` set ps"
    using Cons.IH [OF closed_add_edge [OF Cons.prems]] .
  then show ?case using edges_add_edge [OF Cons.prems] by (simp add: undirected_def)
qed

lemma node_empty_graph: "node empty_graph = {}"
  by (simp add: empty_graph_def)

lemma edges_empty_graph: "edges empty_graph = {}"
  by (simp add: empty_graph_def edges_def)

lemma closed_empty_graph: "\<forall>w. w \<notin> node empty_graph \<longrightarrow> adj empty_graph w = {}"
  by (simp add: empty_graph_def)


subsection \<open>Counting the edges\<close>

text \<open>
  In a graph built from the empty graph the neighbour relation is symmetric, and the
  sum of the degrees is twice the number of the edges: what \<^verbatim>\<open>number_of_edges\<close>
  reports is the number of the distinct edges.
\<close>

lemma degree_sum_add_edge:
  assumes fin: "finite (node g)"
    and closed: "\<forall>w. w \<notin> node g \<longrightarrow> adj g w = {}"
    and sym: "\<forall>a b. b \<in> adj g a \<longrightarrow> a \<in> adj g b"
    and deg: "(\<Sum>w \<in> node g. degree g w) = 2 * card (edges g)"
  shows "(\<Sum>w \<in> node (add_edge g u v). degree (add_edge g u v) w)
    = 2 * card (edges (add_edge g u v))"
proof -
  let ?g' = "add_edge g u v"
  let ?N' = "insert v (insert u (node g))"
  have sub: "adj g w \<subseteq> node g" for w
  proof
    fix b
    assume "b \<in> adj g w"
    then have "w \<in> adj g b" using sym by blast
    then show "b \<in> node g" using closed by auto
  qed
  have finadj: "finite (adj g w)" for w
    using sub [of w] fin by (rule finite_subset)
  have finE: "finite (edges g)"
    unfolding edges_def using fin finadj by blast
  have mem: "{u, v} \<in> edges g \<longleftrightarrow> v \<in> adj g u"
  proof
    assume "{u, v} \<in> edges g"
    then obtain a b where "a \<in> node g" "b \<in> adj g a" "{u, v} = {a, b}"
      by (auto simp: in_edges)
    then show "v \<in> adj g u" using sym by (auto simp: doubleton_eq_iff)
  next
    assume "v \<in> adj g u"
    moreover from this have "u \<in> node g" using closed by auto
    ultimately show "{u, v} \<in> edges g" unfolding in_edges by blast
  qed
  have E': "edges ?g' = insert {u, v} (edges g)"
    using closed by (rule edges_add_edge)
  have ext: "(\<Sum>w \<in> ?N'. degree g w) = (\<Sum>w \<in> node g. degree g w)"
  proof (rule sum.mono_neutral_right)
    show "finite ?N'" using fin by simp
    show "node g \<subseteq> ?N'" by auto
    show "\<forall>w \<in> ?N' - node g. degree g w = 0" using closed by (simp add: degree_def)
  qed
  show ?thesis
  proof (cases "v \<in> adj g u")
    case True
    then have "u \<in> adj g v" using sym by blast
    then have "adj ?g' w = adj g w" for w
      using True by (auto simp: adj_add_edge)
    then have "degree ?g' w = degree g w" for w
      by (simp add: degree_def)
    then have "(\<Sum>w \<in> ?N'. degree ?g' w) = (\<Sum>w \<in> ?N'. degree g w)"
      by simp
    moreover have "card (edges ?g') = card (edges g)"
      using True mem by (simp add: E' insert_absorb)
    ultimately show ?thesis using ext deg by (simp add: node_add_edge)
  next
    case False
    then have nvu: "u \<notin> adj g v" using sym by blast
    have d: "degree ?g' w = degree g w + (if w = u then 1 else 0) + (if w = v then 1 else 0)"
      for w
      using False nvu finadj by (auto simp: degree_def adj_add_edge)
    have "(\<Sum>w \<in> ?N'. degree ?g' w) =
      (\<Sum>w \<in> ?N'. degree g w) + (\<Sum>w \<in> ?N'. if w = u then 1 else 0)
        + (\<Sum>w \<in> ?N'. if w = v then 1 else 0)"
      by (simp add: d sum.distrib)
    also have "(\<Sum>w \<in> ?N'. if w = u then 1 else 0) = (1::nat)"
      using fin by (subst sum.delta) simp_all
    also have "(\<Sum>w \<in> ?N'. if w = v then 1 else 0) = (1::nat)"
      using fin by (subst sum.delta) simp_all
    finally have "(\<Sum>w \<in> ?N'. degree ?g' w) = 2 * card (edges g) + 2"
      using ext deg by simp
    moreover have "card (edges ?g') = Suc (card (edges g))"
      using False mem finE by (simp add: E')
    ultimately show ?thesis by (simp add: node_add_edge)
  qed
qed

lemma sym_add_edge:
  "\<forall>a b. b \<in> adj g a \<longrightarrow> a \<in> adj g b \<Longrightarrow>
   \<forall>a b. b \<in> adj (add_edge g u v) a \<longrightarrow> a \<in> adj (add_edge g u v) b"
  by (auto simp: adj_add_edge split: if_splits)

lemma add_edges_snoc:
  "add_edges g (ps @ [p]) = add_edge (add_edges g ps) (fst p) (snd p)"
  by (simp add: add_edges_def)

lemma degree_sum_add_edges:
  "finite (node (add_edges empty_graph ps))
   \<and> (\<forall>a b. b \<in> adj (add_edges empty_graph ps) a \<longrightarrow> a \<in> adj (add_edges empty_graph ps) b)
   \<and> (\<Sum>w \<in> node (add_edges empty_graph ps). degree (add_edges empty_graph ps) w)
       = 2 * card (edges (add_edges empty_graph ps))"
proof (induction ps rule: rev_induct)
  case Nil
  show ?case by (simp add: add_edges_def empty_graph_def edges_def)
next
  case (snoc p ps)
  let ?g = "add_edges empty_graph ps"
  have c: "\<forall>w. w \<notin> node ?g \<longrightarrow> adj ?g w = {}"
    using closed_empty_graph by (rule closed_add_edges)
  have "finite (node (add_edge ?g (fst p) (snd p)))"
    using snoc.IH by (simp add: node_add_edge)
  moreover have "\<forall>a b. b \<in> adj (add_edge ?g (fst p) (snd p)) a
      \<longrightarrow> a \<in> adj (add_edge ?g (fst p) (snd p)) b"
    using snoc.IH sym_add_edge by blast
  moreover have "(\<Sum>w \<in> node (add_edge ?g (fst p) (snd p)). degree (add_edge ?g (fst p) (snd p)) w)
      = 2 * card (edges (add_edge ?g (fst p) (snd p)))"
    using snoc.IH c by (intro degree_sum_add_edge) auto
  ultimately show ?case by (simp add: add_edges_snoc)
qed

lemma number_of_edges_add_edges:
  "number_of_edges (add_edges empty_graph ps) = card (edges (add_edges empty_graph ps))"
  using degree_sum_add_edges [of ps] by (simp add: number_of_edges_def)

subsection \<open>The whole function\<close>

lemma convert_result:
  "snd (convert_data_into_graph L data) =
     snd (loop (L, empty_graph) (enumerate 0 (processed_lines data)))"
proof (cases "loop (L, empty_graph) (enumerate 0 (processed_lines data))")
  case (Pair L' r)
  then show ?thesis
    by (cases r) (simp_all add: convert_data_into_graph_def processed_lines_def)
qed

lemma convert_malformed:
  assumes "\<not> well_formed data"
  shows "snd (convert_data_into_graph L data) = Inl ValueError"
proof -
  from assms obtain x where "x \<in> set (enumerate 0 (processed_lines data))"
    and "malformed (fst x) (snd x)"
    by (auto simp: well_formed_def list_all_iff)
  then show ?thesis by (simp add: convert_result loop_malformed)
qed

lemma enumerate_index: "x \<in> set (enumerate (Suc n) xs) \<Longrightarrow> fst x \<noteq> 0"
  by (simp add: in_set_enumerate_eq)

lemma convert_well_formed:
  assumes "well_formed data"
  shows "snd (convert_data_into_graph L data) = Inr (add_edges empty_graph (edge_pairs data))"
proof (cases "processed_lines data")
  case Nil
  then show ?thesis
    by (simp add: convert_result edge_pairs_def edge_lines_def add_edges_def
        List.map_filter_simps)
next
  case (Cons h es)
  have h: "\<not> malformed 0 h" using assms Cons by (simp add: well_formed_def)
  have es: "\<forall>x \<in> set (enumerate (Suc 0) es). fst x \<noteq> 0 \<and> \<not> malformed (fst x) (snd x)"
    using assms Cons by (auto simp: well_formed_def list_all_iff dest: enumerate_index)
  obtain L' where b: "body (L, empty_graph) (0, h) = (L', Inr empty_graph)"
    using h by (cases rule: body_cases [of L empty_graph "(0, h)"]) auto
  have "snd (loop (L', empty_graph) (enumerate (Suc 0) es)) =
    Inr (add_edges empty_graph (List.map_filter edge_of_line es))"
    using loop_edges [OF es] by simp
  then show ?thesis using Cons b by (simp add: convert_result edge_pairs_def edge_lines_def)
qed

lemma length_edge_pairs:
  assumes "well_formed data"
  shows "length (edge_pairs data) = length (edge_lines data)"
proof -
  have "\<forall>l \<in> set (edge_lines data). edge_of_line l \<noteq> None"
  proof
    fix l
    assume "l \<in> set (edge_lines data)"
    then obtain k where k: "k < length (edge_lines data)" "edge_lines data ! k = l"
      by (auto simp: in_set_conv_nth)
    then have "(Suc k, l) \<in> set (enumerate 0 (processed_lines data))"
      by (auto simp: in_set_enumerate_eq edge_lines_def)
    then have "\<not> malformed (Suc k) l"
      using assms by (auto simp: well_formed_def list_all_iff)
    then show "edge_of_line l \<noteq> None" using malformed_edge [of "Suc k" l] by simp
  qed
  then have "filter (\<lambda>l. edge_of_line l \<noteq> None) (edge_lines data) = edge_lines data"
    by (simp add: filter_id_conv)
  then show ?thesis by (simp add: edge_pairs_def List.map_filter_def)
qed

subsection \<open>The log, and what the result depends on\<close>

lemma body_fst: "fst (body (L, g) x) = L @ fst (body ([], g) x)"
  by (cases x, cases "split_on CHR '' '' (snd x)" rule: unpack3.cases)
     (auto simp: body_def info_def debug_def split: option.splits)

lemma body_snd: "snd (body (L, g) x) = snd (body ([], g) x)"
  by (cases x) (simp add: body_result)

lemma loop_fst: "fst (loop (L, g) xs) = L @ fst (loop ([], g) xs)"
proof (induction xs arbitrary: L g)
  case Nil
  show ?case by simp
next
  case (Cons x xs)
  obtain l r where b0: "body ([], g) x = (l, r)" by (cases "body ([], g) x")
  have b: "body (L, g) x = (L @ l, r)"
    using body_fst [of L g x] body_snd [of L g x] b0 by (cases "body (L, g) x") simp
  show ?case
  proof (cases r)
    case (Inl e)
    then show ?thesis using b b0 by simp
  next
    case (Inr g')
    have "fst (loop (L @ l, g') xs) = (L @ l) @ fst (loop ([], g') xs)"
      by (rule Cons.IH)
    moreover have "fst (loop (l, g') xs) = l @ fst (loop ([], g') xs)"
      by (rule Cons.IH)
    ultimately show ?thesis using b b0 Inr by simp
  qed
qed

lemma convert_fst:
  "fst (convert_data_into_graph L data) = L @ fst (convert_data_into_graph [] data)"
proof -
  let ?xs = "enumerate 0 (butlast (split_on CHR ''\<newline>'' data))"
  obtain l r where l0: "loop ([], empty_graph) ?xs = (l, r)"
    by (cases "loop ([], empty_graph) ?xs")
  have "loop (L, empty_graph) ?xs = (L @ l, r)"
    using loop_fst [of L empty_graph ?xs] loop_log_free [of L empty_graph ?xs "[]"] l0
    by (cases "loop (L, empty_graph) ?xs") simp
  then show ?thesis using l0
    by (cases r) (simp_all add: convert_data_into_graph_def info_def)
qed

lemma convert_log_free:
  "snd (convert_data_into_graph L data) = snd (convert_data_into_graph L' data)"
  by (simp add: convert_result loop_log_free [of L _ _ L'])

lemma convert_processed:
  "processed_lines x = processed_lines y \<Longrightarrow>
   convert_data_into_graph L x = convert_data_into_graph L y"
  by (simp add: convert_data_into_graph_def processed_lines_def)

lemma processed_lines_last:
  "CHR ''\<newline>'' \<notin> set s \<Longrightarrow>
   processed_lines (d @ CHR ''\<newline>'' # s) = split_on CHR ''\<newline>'' d"
  by (simp add: processed_lines_def split_on_append split_on_absent butlast_append)

lemma processed_lines_single: "CHR ''\<newline>'' \<notin> set s \<Longrightarrow> processed_lines s = []"
  by (simp add: processed_lines_def split_on_absent)

lemma convert_log_length:
  assumes "snd (convert_data_into_graph L data) = Inr g"
  shows "length (fst (convert_data_into_graph L data)) =
    length L + count_list data CHR ''\<newline>'' + 2"
proof -
  let ?xs = "enumerate 0 (butlast (split_on CHR ''\<newline>'' data))"
  obtain L' r where l: "loop (L, empty_graph) ?xs = (L', r)"
    by (cases "loop (L, empty_graph) ?xs")
  have r: "r = Inr g" using assms l
    by (cases r) (simp_all add: convert_data_into_graph_def)
  then have "length L' = length L + length ?xs"
    using loop_log [of L empty_graph ?xs g] l by simp
  then show ?thesis using l r
    by (simp add: convert_data_into_graph_def info_def length_split_on)
qed

lemma header_step:
  assumes "length (split_on CHR '' '' h) = 3"
  shows "snd (loop (L, g) ((0, h) # xs)) = snd (loop ([], g) xs)"
proof -
  have "\<not> malformed 0 h"
    using assms by (cases "split_on CHR '' '' h" rule: unpack3.cases) (auto simp: malformed_def)
  then obtain L' where "body (L, g) (0, h) = (L', Inr g)"
    by (cases rule: body_cases [of L g "(0, h)"]) auto
  then show ?thesis using loop_log_free [of L' g xs "[]"] by simp
qed

lemma str_nat_0: "str_nat 0 = ''0''"
  by (simp add: str_nat.simps)

lemma processed_lines_middle:
  assumes "CHR ''\<newline>'' \<notin> set line"
  shows "processed_lines (pre @ CHR ''\<newline>'' # line @ CHR ''\<newline>'' # post)
    = split_on CHR ''\<newline>'' pre @ line # processed_lines post"
proof -
  have "split_on CHR ''\<newline>'' (pre @ CHR ''\<newline>'' # line @ CHR ''\<newline>'' # post)
      = split_on CHR ''\<newline>'' pre @ line # split_on CHR ''\<newline>'' post"
    using assms by (simp add: split_on_append split_on_absent)
  then show ?thesis by (simp add: processed_lines_def butlast_append)
qed

lemma edge_line_step:
  assumes "i \<noteq> 0" and "split_on CHR '' '' line = [u, v, w]"
    and "split_on CHR '' '' line' = [u, v, w']"
  shows "snd (loop (L, g) ((i, line) # xs)) = snd (loop (L, g) ((i, line') # xs))"
proof -
  obtain L1 r1 where b1: "body (L, g) (i, line) = (L1, r1)" by (cases "body (L, g) (i, line)")
  obtain L2 r2 where b2: "body (L, g) (i, line') = (L2, r2)" by (cases "body (L, g) (i, line')")
  have "snd (body (L, g) (i, line)) = snd (body (L, g) (i, line'))"
    using assms by (simp add: body_result malformed_def edge_of_line_def)
  then have "r1 = r2" using b1 b2 by simp
  then show ?thesis using b1 b2 loop_log_free [of L1 _ xs L2] by (cases r1) auto
qed

section \<open>The claims\<close>

text \<open>
  C1. For every well-formed text the call returns a graph. Its node set is exactly the
  set of the end points that the edge lines name, each less 1, and its edge set is
  exactly the set of the undirected edges between the two end points of an edge line:
  one edge for a pair however often it is seen, a self-loop for a line that names one
  node twice. Every edge line contributes its pair.
\<close>

theorem graph_of_well_formed_text:
  assumes "well_formed data"
  shows "\<exists>g. snd (convert_data_into_graph L data) = Inr g
           \<and> node g = (\<Union>p \<in> set (edge_pairs data). undirected p)
           \<and> edges g = undirected ` set (edge_pairs data)
           \<and> length (edge_pairs data) = length (edge_lines data)"
  using assms
  by (simp add: convert_well_formed node_add_edges edges_add_edges closed_empty_graph
      node_empty_graph edges_empty_graph length_edge_pairs)

theorem graph_of_well_formed_text_witness:
  "well_formed ''3 2 0\<newline>1 2 5\<newline>2 1 7\<newline>1 2 5\<newline>3 3 1\<newline>''
   \<and> (\<exists>g. snd (convert_data_into_graph [] ''3 2 0\<newline>1 2 5\<newline>2 1 7\<newline>1 2 5\<newline>3 3 1\<newline>'') = Inr g
          \<and> node g = {0, 1, 2} \<and> edges g = {{0, 1}, {2}})"
proof -
  have wf: "well_formed ''3 2 0\<newline>1 2 5\<newline>2 1 7\<newline>1 2 5\<newline>3 3 1\<newline>''"
    by code_simp
  have ps: "edge_pairs ''3 2 0\<newline>1 2 5\<newline>2 1 7\<newline>1 2 5\<newline>3 3 1\<newline>''
      = [(0, 1), (1, 0), (0, 1), (2, 2)]"
    by code_simp
  show ?thesis
    using wf graph_of_well_formed_text [OF wf, of "[]"]
    by (auto simp: ps undirected_def)
qed

text \<open>
  C2, in the form that holds of the code. The header \<^verbatim>\<open>3 2 0\<close> is unpacked into the
  three tokens 3, 2 and 0. On the text of the scenario, which ends in two newlines,
  the header is logged, both edges are added, and the empty fourth segment then raises
  \<^verbatim>\<open>ValueError\<close>: no graph is returned. On the same text with one newline at its end
  the call returns a graph with the nodes 0, 1, 2 and the edges 0-1 and 1-2.
\<close>

theorem scenario_three_nodes_two_edges:
  "unpack3 (split_on CHR '' '' ''3 2 0'') = Inr (''3'', ''2'', ''0'')
   \<and> convert_data_into_graph L ''3 2 0\<newline>1 2 5\<newline>2 3 7\<newline>\<newline>''
       = (L @ [(INFO, ''Expect number of nodes 3 and edges 2''),
               (DEBUG, ''Added an edge from u: 1 to  v: 2 with weight 5''),
               (DEBUG, ''Added an edge from u: 2 to  v: 3 with weight 7'')],
          Inl ValueError)
   \<and> (\<exists>g. convert_data_into_graph L ''3 2 0\<newline>1 2 5\<newline>2 3 7\<newline>''
            = (L @ [(INFO, ''Expect number of nodes 3 and edges 2''),
                    (DEBUG, ''Added an edge from u: 1 to  v: 2 with weight 5''),
                    (DEBUG, ''Added an edge from u: 2 to  v: 3 with weight 7''),
                    (INFO, ''Total number of nodes: 3''),
                    (INFO, ''Total number of edges: 2'')],
               Inr g)
          \<and> node g = {0, 1, 2} \<and> edges g = {{0, 1}, {1, 2}})"
proof -
  have h: "unpack3 (split_on CHR '' '' ''3 2 0'') = Inr (''3'', ''2'', ''0'')"
    by simp
  have bad: "\<not> well_formed ''3 2 0\<newline>1 2 5\<newline>2 3 7\<newline>\<newline>''"
    by code_simp
  have bad_log: "fst (convert_data_into_graph [] ''3 2 0\<newline>1 2 5\<newline>2 3 7\<newline>\<newline>'')
      = [(INFO, ''Expect number of nodes 3 and edges 2''),
         (DEBUG, ''Added an edge from u: 1 to  v: 2 with weight 5''),
         (DEBUG, ''Added an edge from u: 2 to  v: 3 with weight 7'')]"
    by code_simp
  have wf: "well_formed ''3 2 0\<newline>1 2 5\<newline>2 3 7\<newline>''"
    by code_simp
  have ps: "edge_pairs ''3 2 0\<newline>1 2 5\<newline>2 3 7\<newline>'' = [(0, 1), (1, 2)]"
    by code_simp
  have log: "fst (convert_data_into_graph [] ''3 2 0\<newline>1 2 5\<newline>2 3 7\<newline>'')
      = [(INFO, ''Expect number of nodes 3 and edges 2''),
         (DEBUG, ''Added an edge from u: 1 to  v: 2 with weight 5''),
         (DEBUG, ''Added an edge from u: 2 to  v: 3 with weight 7''),
         (INFO, ''Total number of nodes: 3''),
         (INFO, ''Total number of edges: 2'')]"
    by code_simp
  have 1: "convert_data_into_graph L ''3 2 0\<newline>1 2 5\<newline>2 3 7\<newline>\<newline>''
      = (L @ [(INFO, ''Expect number of nodes 3 and edges 2''),
              (DEBUG, ''Added an edge from u: 1 to  v: 2 with weight 5''),
              (DEBUG, ''Added an edge from u: 2 to  v: 3 with weight 7'')],
         Inl ValueError)"
    using convert_malformed [OF bad, of L]
      convert_fst [of L "''3 2 0\<newline>1 2 5\<newline>2 3 7\<newline>\<newline>''"]
    unfolding bad_log by (simp add: prod_eq_iff)
  have 2: "convert_data_into_graph L ''3 2 0\<newline>1 2 5\<newline>2 3 7\<newline>''
      = (L @ [(INFO, ''Expect number of nodes 3 and edges 2''),
              (DEBUG, ''Added an edge from u: 1 to  v: 2 with weight 5''),
              (DEBUG, ''Added an edge from u: 2 to  v: 3 with weight 7''),
              (INFO, ''Total number of nodes: 3''),
              (INFO, ''Total number of edges: 2'')],
         Inr (add_edges empty_graph [(0, 1), (1, 2)]))"
    using convert_well_formed [OF wf, of L]
      convert_fst [of L "''3 2 0\<newline>1 2 5\<newline>2 3 7\<newline>''"]
    unfolding log ps by (simp add: prod_eq_iff)
  have 3: "node (add_edges empty_graph [(0, 1), (1, 2)]) = {0, 1, 2}"
    by (auto simp: node_add_edges node_empty_graph undirected_def)
  have 4: "edges (add_edges empty_graph [(0, 1), (1, 2)]) = {{0, 1}, {1, 2}}"
    by (auto simp: edges_add_edges closed_empty_graph edges_empty_graph undirected_def)
  show ?thesis using h 1 2 3 4 by blast
qed

theorem scenario_three_nodes_two_edges_witness:
  "convert_data_into_graph [] ''3 2 0\<newline>1 2 5\<newline>2 3 7\<newline>\<newline>''
       = ([(INFO, ''Expect number of nodes 3 and edges 2''),
           (DEBUG, ''Added an edge from u: 1 to  v: 2 with weight 5''),
           (DEBUG, ''Added an edge from u: 2 to  v: 3 with weight 7'')],
          Inl ValueError)"
  using scenario_three_nodes_two_edges [of "[]"] by simp

theorem blank_line_counterexample:
  "snd (convert_data_into_graph [] ''3 2 0\<newline>1 2 5\<newline>2 3 7\<newline>\<newline>'') = Inl ValueError"
proof -
  have "\<not> well_formed ''3 2 0\<newline>1 2 5\<newline>2 3 7\<newline>\<newline>''"
    by code_simp
  then show ?thesis by (rule convert_malformed)
qed

text \<open>
  C3. The text is split at its newlines, and the last segment is ignored whatever it
  holds: two texts that differ in their last segment only give the same log and the
  same result, and so do two texts without a newline. Every other segment is
  processed: a call that returns has made one logger call for each of them (the text
  has as many of them as newlines) and two more for the totals.
\<close>

theorem last_segment_ignored:
  "(CHR ''\<newline>'' \<notin> set s \<and> CHR ''\<newline>'' \<notin> set s' \<longrightarrow>
      convert_data_into_graph L (d @ CHR ''\<newline>'' # s)
        = convert_data_into_graph L (d @ CHR ''\<newline>'' # s')
      \<and> convert_data_into_graph L s = convert_data_into_graph L s')
   \<and> (snd (convert_data_into_graph L data) = Inr g \<longrightarrow>
        length (fst (convert_data_into_graph L data))
          = length L + count_list data CHR ''\<newline>'' + 2)"
  by (auto simp: convert_log_length processed_lines_last processed_lines_single
      intro!: convert_processed)

theorem last_segment_ignored_witness:
  "CHR ''\<newline>'' \<notin> set ''this is no edge line''
   \<and> convert_data_into_graph [] ''3 2 0\<newline>1 2 5\<newline>this is no edge line''
       = convert_data_into_graph [] ''3 2 0\<newline>1 2 5\<newline>''
   \<and> convert_data_into_graph [] ''this is no edge line'' = convert_data_into_graph [] ''''
   \<and> snd (convert_data_into_graph [] ''3 2 0\<newline>1 2 5\<newline>'')
       = Inr (add_edges empty_graph [(0, 1)])
   \<and> length (fst (convert_data_into_graph [] ''3 2 0\<newline>1 2 5\<newline>'')) = 4"
proof -
  have wf: "well_formed ''3 2 0\<newline>1 2 5\<newline>''"
    by code_simp
  have ps: "edge_pairs ''3 2 0\<newline>1 2 5\<newline>'' = [(0, 1)]"
    by code_simp
  have g: "snd (convert_data_into_graph [] ''3 2 0\<newline>1 2 5\<newline>'')
      = Inr (add_edges empty_graph [(0, 1)])"
    using convert_well_formed [OF wf, of "[]"] by (simp add: ps)
  show ?thesis
    using g last_segment_ignored [where s = "''this is no edge line''" and s' = "''''"
        and d = "''3 2 0\<newline>1 2 5''" and L = "[]"
        and data = "''3 2 0\<newline>1 2 5\<newline>''" and g = "add_edges empty_graph [(0, 1)]"]
    by simp
qed

text \<open>
  C4. \<^verbatim>\<open>read_data_from_url\<close> calls \<^verbatim>\<open>requests.get\<close> once: it leaves the world as one
  request leaves it. When the request gives a response, the call returns its text for
  the status 200 and \<^verbatim>\<open>None\<close> for every other status, and raises nothing.
\<close>

theorem read_data_from_url_result:
  "fst (read_data_from_url requests_get w url) = fst (requests_get w url)
   \<and> (snd (requests_get w url) = Inr resp \<longrightarrow>
        snd (read_data_from_url requests_get w url)
          = Inr (if status_code resp = 200 then Some (response_text resp) else None))"
  by (cases "requests_get w url") (auto simp: read_data_from_url_def split: sum.splits)

theorem read_data_from_url_result_witness:
  "read_data_from_url (\<lambda>n u. (Suc n, Inr \<lparr>status_code = 404, response_text = ''Not Found''\<rparr>))
       (0::nat) ''https://web.stanford.edu/~yyye/yyye/Gset/G15'' = (1, Inr None)
   \<and> read_data_from_url (\<lambda>n u. (Suc n, Inr \<lparr>status_code = 200, response_text = ''3 2 0''\<rparr>))
       (0::nat) ''https://web.stanford.edu/~yyye/yyye/Gset/G15'' = (1, Inr (Some ''3 2 0''))"
  using
    read_data_from_url_result [where w = "0::nat"
      and requests_get = "\<lambda>n u. (Suc n, Inr \<lparr>status_code = 404, response_text = ''Not Found''\<rparr>)"
      and url = "''https://web.stanford.edu/~yyye/yyye/Gset/G15''"
      and resp = "\<lparr>status_code = 404, response_text = ''Not Found''\<rparr>"]
    read_data_from_url_result [where w = "0::nat"
      and requests_get = "\<lambda>n u. (Suc n, Inr \<lparr>status_code = 200, response_text = ''3 2 0''\<rparr>)"
      and url = "''https://web.stanford.edu/~yyye/yyye/Gset/G15''"
      and resp = "\<lparr>status_code = 200, response_text = ''3 2 0''\<rparr>"]
  by (simp add: prod_eq_iff)

text \<open>
  C5. A text with a malformed processed line (not exactly three tokens between single
  spaces, or an edge line whose first or second token is no integer) raises
  \<^verbatim>\<open>ValueError\<close>: no graph is returned, not even a partial one.
\<close>

theorem malformed_line_is_fatal:
  assumes "(i, line) \<in> set (enumerate 0 (processed_lines data))" and "malformed i line"
  shows "snd (convert_data_into_graph L data) = Inl ValueError"
  using assms loop_malformed [of "(i, line)"] by (simp add: convert_result)

theorem malformed_line_is_fatal_witness:
  "(1, ''1 x 5'') \<in> set (enumerate 0 (processed_lines ''3 2 0\<newline>1 x 5\<newline>2 3 7\<newline>''))
   \<and> malformed 1 ''1 x 5''
   \<and> snd (convert_data_into_graph [] ''3 2 0\<newline>1 x 5\<newline>2 3 7\<newline>'') = Inl ValueError"
proof -
  have m: "(1, ''1 x 5'') \<in> set (enumerate 0 (processed_lines ''3 2 0\<newline>1 x 5\<newline>2 3 7\<newline>''))"
    by code_simp
  have b: "malformed 1 ''1 x 5''"
    by code_simp
  show ?thesis using m b malformed_line_is_fatal [OF m b, of "[]"] by simp
qed

text \<open>
  C6. The values of the header's tokens do not reach the result: two texts that differ
  in their first line only, both first lines having three tokens, give the same
  result (the same graph or the same exception), whatever the logger held before.
  The same holds when the header is all there is.
\<close>

theorem header_values_do_not_matter:
  assumes "length (split_on CHR '' '' h) = 3" and "length (split_on CHR '' '' h') = 3"
    and "CHR ''\<newline>'' \<notin> set h" and "CHR ''\<newline>'' \<notin> set h'"
  shows "snd (convert_data_into_graph L (h @ CHR ''\<newline>'' # rest))
           = snd (convert_data_into_graph L' (h' @ CHR ''\<newline>'' # rest))
         \<and> snd (convert_data_into_graph L h) = snd (convert_data_into_graph L' h')"
proof -
  have p: "processed_lines (x @ CHR ''\<newline>'' # rest) = x # processed_lines rest"
    if "CHR ''\<newline>'' \<notin> set x" for x
    using that by (simp add: processed_lines_def split_on_append split_on_absent)
  have "snd (convert_data_into_graph L (h @ CHR ''\<newline>'' # rest))
      = snd (loop ([], empty_graph) (enumerate (Suc 0) (processed_lines rest)))"
    using assms by (simp add: convert_result p header_step del: loop.simps)
  moreover have "snd (convert_data_into_graph L' (h' @ CHR ''\<newline>'' # rest))
      = snd (loop ([], empty_graph) (enumerate (Suc 0) (processed_lines rest)))"
    using assms by (simp add: convert_result p header_step del: loop.simps)
  moreover have "snd (convert_data_into_graph L h) = snd (convert_data_into_graph L' h')"
    using assms by (simp add: convert_result processed_lines_single)
  ultimately show ?thesis by simp
qed

theorem header_values_do_not_matter_witness:
  "length (split_on CHR '' '' ''3 2 0'') = 3 \<and> length (split_on CHR '' '' ''800 x -'') = 3
   \<and> CHR ''\<newline>'' \<notin> set ''3 2 0'' \<and> CHR ''\<newline>'' \<notin> set ''800 x -''
   \<and> snd (convert_data_into_graph [] ''3 2 0\<newline>1 2 5\<newline>'')
       = snd (convert_data_into_graph [] ''800 x -\<newline>1 2 5\<newline>'')
   \<and> snd (convert_data_into_graph [] ''3 2 0'') = snd (convert_data_into_graph [] ''800 x -'')"
proof -
  have a: "length (split_on CHR '' '' ''3 2 0'') = 3" by simp
  have b: "length (split_on CHR '' '' ''800 x -'') = 3" by simp
  have c: "CHR ''\<newline>'' \<notin> set ''3 2 0''" by simp
  have d: "CHR ''\<newline>'' \<notin> set ''800 x -''" by simp
  show ?thesis
    using a b c d header_values_do_not_matter [OF a b c d, of "[]" "''1 2 5\<newline>''" "[]"]
    by simp
qed

text \<open>
  C7, in the form that holds of the code. For a well-formed text the returned graph
  has at most as many distinct edges as the text has edge lines, and exactly as many
  if and only if no two edge lines join the same two end points, in either order. A
  self-loop counts as one edge and takes nothing from the count. The number of the
  distinct edges is the number that \<^verbatim>\<open>number_of_edges\<close> reports.
\<close>

theorem edge_count_bound:
  assumes "well_formed data" and "snd (convert_data_into_graph L data) = Inr g"
  shows "number_of_edges g = card (edges g)
         \<and> card (edges g) \<le> length (edge_lines data)
         \<and> (card (edges g) = length (edge_lines data)
              \<longleftrightarrow> distinct (map undirected (edge_pairs data)))"
proof -
  have g: "g = add_edges empty_graph (edge_pairs data)"
    using assms by (simp add: convert_well_formed)
  have e: "edges g = set (map undirected (edge_pairs data))"
    by (simp add: g edges_add_edges closed_empty_graph edges_empty_graph)
  have l: "length (map undirected (edge_pairs data)) = length (edge_lines data)"
    using assms(1) by (simp add: length_edge_pairs)
  have n: "number_of_edges g = card (edges g)"
    unfolding g by (rule number_of_edges_add_edges)
  show ?thesis
    using n card_length [of "map undirected (edge_pairs data)"]
      card_distinct [of "map undirected (edge_pairs data)"]
      distinct_card [of "map undirected (edge_pairs data)"]
    unfolding e l by auto
qed

theorem edge_count_bound_witness:
  "well_formed ''3 3 0\<newline>1 2 5\<newline>3 3 1\<newline>2 1 5\<newline>''
   \<and> snd (convert_data_into_graph [] ''3 3 0\<newline>1 2 5\<newline>3 3 1\<newline>2 1 5\<newline>'')
       = Inr (add_edges empty_graph [(0, 1), (2, 2), (1, 0)])
   \<and> length (edge_lines ''3 3 0\<newline>1 2 5\<newline>3 3 1\<newline>2 1 5\<newline>'') = 3
   \<and> number_of_edges (add_edges empty_graph [(0, 1), (2, 2), (1, 0)])
       = card (edges (add_edges empty_graph [(0, 1), (2, 2), (1, 0)]))
   \<and> card (edges (add_edges empty_graph [(0, 1), (2, 2), (1, 0)])) \<le> 3
   \<and> card (edges (add_edges empty_graph [(0, 1), (2, 2), (1, 0)])) \<noteq> 3"
proof -
  have wf: "well_formed ''3 3 0\<newline>1 2 5\<newline>3 3 1\<newline>2 1 5\<newline>''"
    by code_simp
  have ps: "edge_pairs ''3 3 0\<newline>1 2 5\<newline>3 3 1\<newline>2 1 5\<newline>'' = [(0, 1), (2, 2), (1, 0)]"
    by code_simp
  have ls: "length (edge_lines ''3 3 0\<newline>1 2 5\<newline>3 3 1\<newline>2 1 5\<newline>'') = 3"
    by code_simp
  have g: "snd (convert_data_into_graph [] ''3 3 0\<newline>1 2 5\<newline>3 3 1\<newline>2 1 5\<newline>'')
      = Inr (add_edges empty_graph [(0, 1), (2, 2), (1, 0)])"
    using convert_well_formed [OF wf, of "[]"] by (simp add: ps)
  show ?thesis
    using wf g ls edge_count_bound [OF wf g]
    by (simp add: ps undirected_def insert_commute)
qed

theorem reversed_pair_counterexample:
  "edge_lines ''2 2 0\<newline>1 2 5\<newline>2 1 5\<newline>'' = [''1 2 5'', ''2 1 5'']
   \<and> edge_pairs ''2 2 0\<newline>1 2 5\<newline>2 1 5\<newline>'' = [(0, 1), (1, 0)]
   \<and> map_sum id (card \<circ> edges) (snd (convert_data_into_graph [] ''2 2 0\<newline>1 2 5\<newline>2 1 5\<newline>''))
       = Inr 1"
proof -
  have wf: "well_formed ''2 2 0\<newline>1 2 5\<newline>2 1 5\<newline>''"
    by code_simp
  have ps: "edge_pairs ''2 2 0\<newline>1 2 5\<newline>2 1 5\<newline>'' = [(0, 1), (1, 0)]"
    by code_simp
  have ls: "edge_lines ''2 2 0\<newline>1 2 5\<newline>2 1 5\<newline>'' = [''1 2 5'', ''2 1 5'']"
    by code_simp
  have "edges (add_edges empty_graph [(0, 1), (1, 0)]) = {{0, 1}}"
    by (auto simp: edges_add_edges closed_empty_graph edges_empty_graph undirected_def)
  then show ?thesis
    using convert_well_formed [OF wf, of "[]"] by (simp add: ps ls)
qed

text \<open>
  C8. The result does not depend on the state of the logger, the only state that
  outlives a call: a second call on the same text, made after the first, returns what
  the first returned, and so does a call from any other logger state.
\<close>

theorem same_text_same_graph:
  "snd (convert_data_into_graph (fst (convert_data_into_graph L data)) data)
     = snd (convert_data_into_graph L data)
   \<and> snd (convert_data_into_graph L' data) = snd (convert_data_into_graph L data)"
  using convert_log_free by blast

theorem same_text_same_graph_witness:
  "snd (convert_data_into_graph
          (fst (convert_data_into_graph [] ''3 2 0\<newline>1 2 5\<newline>'')) ''3 2 0\<newline>1 2 5\<newline>'')
     = snd (convert_data_into_graph [] ''3 2 0\<newline>1 2 5\<newline>'')
   \<and> snd (convert_data_into_graph [(INFO, ''earlier'')] ''3 2 0\<newline>1 2 5\<newline>'')
     = snd (convert_data_into_graph [] ''3 2 0\<newline>1 2 5\<newline>'')"
  by (rule same_text_same_graph)

text \<open>
  C9. A text without a newline (the empty text too) is its own last segment: the call
  raises nothing, logs the two totals only and returns the empty graph, with no node
  and no edge. The header branch is not reached.
\<close>

theorem no_newline_empty_graph:
  assumes "CHR ''\<newline>'' \<notin> set data"
  shows "\<exists>g. convert_data_into_graph L data
           = (L @ [(INFO, ''Total number of nodes: 0''), (INFO, ''Total number of edges: 0'')],
              Inr g)
         \<and> node g = {} \<and> edges g = {} \<and> g = empty_graph"
  using assms
  by (simp add: convert_data_into_graph_def split_on_absent info_def number_of_nodes_def
      number_of_edges_def node_empty_graph edges_empty_graph str_nat_0)

theorem no_newline_empty_graph_witness:
  "CHR ''\<newline>'' \<notin> set ''no header here''
   \<and> (\<exists>g. convert_data_into_graph [] ''no header here''
           = ([(INFO, ''Total number of nodes: 0''), (INFO, ''Total number of edges: 0'')],
              Inr g)
         \<and> node g = {} \<and> edges g = {} \<and> g = empty_graph)"
proof -
  have a: "CHR ''\<newline>'' \<notin> set ''no header here''" by simp
  show ?thesis using a no_newline_empty_graph [OF a, of "[]"] by simp
qed

text \<open>
  C10. The weight token is not converted and not checked. After any text \<open>pre\<close> whose
  lines were accepted and gave the graph \<open>g\<close>, a line of three tokens whose first two
  are the integers \<open>a\<close> and \<open>b\<close> is accepted and adds the edge between \<open>a - 1\<close> and
  \<open>b - 1\<close> to \<open>g\<close>, whatever its third token \<open>w\<close> is. And anywhere in a text, an
  edge line may take any other third token without a change of the result.
\<close>

theorem weight_token_is_not_checked:
  assumes "split_on CHR '' '' line = [u, v, w]" and "CHR ''\<newline>'' \<notin> set line"
  shows "(snd (convert_data_into_graph L (pre @ [CHR ''\<newline>''])) = Inr g
            \<and> py_int u = Some a \<and> py_int v = Some b \<longrightarrow>
          snd (convert_data_into_graph L (pre @ CHR ''\<newline>'' # line @ [CHR ''\<newline>'']))
            = Inr (add_edge g (a - 1) (b - 1)))
       \<and> (split_on CHR '' '' line' = [u, v, w'] \<and> CHR ''\<newline>'' \<notin> set line' \<longrightarrow>
          snd (convert_data_into_graph L (pre @ CHR ''\<newline>'' # line @ CHR ''\<newline>'' # post))
            = snd (convert_data_into_graph L (pre @ CHR ''\<newline>'' # line' @ CHR ''\<newline>'' # post)))"
proof (intro conjI impI)
  let ?xs = "split_on CHR ''\<newline>'' pre"
  assume h: "snd (convert_data_into_graph L (pre @ [CHR ''\<newline>''])) = Inr g
    \<and> py_int u = Some a \<and> py_int v = Some b"
  have p1: "processed_lines (pre @ [CHR ''\<newline>'']) = ?xs"
    using processed_lines_last [of "[]" pre] by simp
  have p2: "processed_lines (pre @ CHR ''\<newline>'' # line @ [CHR ''\<newline>'']) = ?xs @ [line]"
    using processed_lines_middle [OF assms(2), of pre "[]"]
    by (simp add: processed_lines_single)
  obtain L1 where l1: "loop (L, empty_graph) (enumerate 0 ?xs) = (L1, Inr g)"
    using h p1 by (cases "loop (L, empty_graph) (enumerate 0 ?xs)") (simp add: convert_result)
  have e: "edge_of_line line = Some (a - 1, b - 1)"
    using assms h by (simp add: edge_of_line_def)
  have n: "length ?xs \<noteq> 0" by simp
  have "snd (body (L1, g) (length ?xs, line)) = Inr (add_edge g (a - 1) (b - 1))"
    using e n malformed_edge [of "length ?xs" line] by (simp add: body_result)
  then obtain L2 where "body (L1, g) (length ?xs, line) = (L2, Inr (add_edge g (a - 1) (b - 1)))"
    by (cases "body (L1, g) (length ?xs, line)") simp
  then show "snd (convert_data_into_graph L (pre @ CHR ''\<newline>'' # line @ [CHR ''\<newline>'']))
      = Inr (add_edge g (a - 1) (b - 1))"
    using l1 p2 by (simp add: convert_result enumerate_append_eq loop_append)
next
  let ?xs = "split_on CHR ''\<newline>'' pre"
  let ?ys = "enumerate (Suc (length ?xs)) (processed_lines post)"
  assume h: "split_on CHR '' '' line' = [u, v, w'] \<and> CHR ''\<newline>'' \<notin> set line'"
  have n: "length ?xs \<noteq> 0" by simp
  have s: "snd (loop (L1, g1) ((length ?xs, line) # ?ys))
      = snd (loop (L1, g1) ((length ?xs, line') # ?ys))" for L1 g1
    using n assms(1) h by (intro edge_line_step) auto
  obtain L1 r1 where l1: "loop (L, empty_graph) (enumerate 0 ?xs) = (L1, r1)"
    by (cases "loop (L, empty_graph) (enumerate 0 ?xs)")
  show "snd (convert_data_into_graph L (pre @ CHR ''\<newline>'' # line @ CHR ''\<newline>'' # post))
      = snd (convert_data_into_graph L (pre @ CHR ''\<newline>'' # line' @ CHR ''\<newline>'' # post))"
    using assms(2) h l1 s
    by (cases r1)
      (simp_all add: convert_result processed_lines_middle enumerate_append_eq loop_append
        del: loop.simps)
qed

theorem weight_token_is_not_checked_witness:
  "split_on CHR '' '' ''1 2 heavy'' = [''1'', ''2'', ''heavy'']
   \<and> CHR ''\<newline>'' \<notin> set ''1 2 heavy''
   \<and> snd (convert_data_into_graph [] ''3 2 0\<newline>'') = Inr empty_graph
   \<and> py_int ''1'' = Some 1 \<and> py_int ''2'' = Some 2
   \<and> snd (convert_data_into_graph [] ''3 2 0\<newline>1 2 heavy\<newline>'')
       = Inr (add_edge empty_graph 0 1)
   \<and> split_on CHR '' '' ''1 2 5'' = [''1'', ''2'', ''5'']
   \<and> CHR ''\<newline>'' \<notin> set ''1 2 5''
   \<and> snd (convert_data_into_graph [] ''3 2 0\<newline>1 2 heavy\<newline>2 3 7\<newline>'')
       = snd (convert_data_into_graph [] ''3 2 0\<newline>1 2 5\<newline>2 3 7\<newline>'')"
proof -
  have wf: "well_formed ''3 2 0\<newline>''" by code_simp
  have ps: "edge_pairs ''3 2 0\<newline>'' = []" by code_simp
  have a: "snd (convert_data_into_graph [] ''3 2 0\<newline>'') = Inr empty_graph"
    using convert_well_formed [OF wf, of "[]"] by (simp add: ps add_edges_def)
  have b: "split_on CHR '' '' ''1 2 heavy'' = [''1'', ''2'', ''heavy'']" by simp
  have c: "CHR ''\<newline>'' \<notin> set ''1 2 heavy''" by simp
  have d: "py_int ''1'' = Some 1" by code_simp
  have e: "py_int ''2'' = Some 2" by code_simp
  have b': "split_on CHR '' '' ''1 2 5'' = [''1'', ''2'', ''5'']" by simp
  have c': "CHR ''\<newline>'' \<notin> set ''1 2 5''" by simp
  show ?thesis
    using a b c d e b' c'
      weight_token_is_not_checked [OF b c, where L = "[]" and pre = "''3 2 0''"
        and g = empty_graph and a = 1 and b = 2 and line' = "''1 2 5''" and w' = "''5''"
        and post = "''2 3 7'' @ [CHR ''\<newline>'']"]
    by simp
qed

end
